theory Spec2Isabelle
  imports Complex_Main "HOL-Library.Sublist"
begin

section \<open>Python values used by \<open>utils.py\<close>\<close>

text \<open>
  Text is a \<^typ>\<open>string\<close>; a character stands for the code point of the same number, so
  the model covers the code points 0 to 255. Python integers are \<^typ>\<open>int\<close>. A Python
  float is either a finite number, kept exact (binary64 rounding and overflow are not
  modelled), or one of the three non-finite values that \<open>float()\<close> can return for the
  words \<open>inf\<close> and \<open>nan\<close>.
\<close>

datatype py_error = ValueError | IndexError | TypeError | OverflowError | OSError

datatype pyfloat = Fin real | PInf | NInf | NaN

subsection \<open>Character classes\<close>

definition is_space :: "char \<Rightarrow> bool" where
  \<comment> \<open>\<open>str.isspace\<close> and the class \<open>\s\<close> of \<open>re\<close>, below code point 256\<close>
  "is_space c = (of_char c \<in> {9, 10, 11, 12, 13, 28, 29, 30, 31, 32, 133, 160 :: nat})"

definition is_linebreak :: "char \<Rightarrow> bool" where
  \<comment> \<open>the line boundaries of \<open>str.splitlines\<close>, below code point 256\<close>
  "is_linebreak c = (of_char c \<in> {10, 11, 12, 13, 28, 29, 30, 133 :: nat})"

definition is_digit :: "char \<Rightarrow> bool" where
  "is_digit c = (48 \<le> (of_char c :: nat) \<and> (of_char c :: nat) \<le> 57)"

definition is_alpha :: "char \<Rightarrow> bool" where
  \<comment> \<open>the class \<open>[a-zA-Z]\<close>\<close>
  "is_alpha c = ((65 \<le> (of_char c :: nat) \<and> (of_char c :: nat) \<le> 90)
               \<or> (97 \<le> (of_char c :: nat) \<and> (of_char c :: nat) \<le> 122))"

definition lead_digit :: "char \<Rightarrow> bool" where
  \<comment> \<open>a digit from 1 to 9\<close>
  "lead_digit c = (49 \<le> (of_char c :: nat) \<and> (of_char c :: nat) \<le> 57)"

definition digit_val :: "char \<Rightarrow> nat" where
  "digit_val c = of_char c - 48"

definition lower_ascii :: "char \<Rightarrow> char" where
  "lower_ascii c = (if 65 \<le> (of_char c :: nat) \<and> (of_char c :: nat) \<le> 90
                    then char_of (of_char c + 32 :: nat) else c)"

subsection \<open>\<open>str.strip\<close>, \<open>str.split\<close>, \<open>str.splitlines\<close>, \<open>str.startswith\<close>\<close>

definition strip :: "string \<Rightarrow> string" where
  "strip s = rev (dropWhile is_space (rev (dropWhile is_space s)))"

fun split_acc :: "string \<Rightarrow> string \<Rightarrow> string list" where
  "split_acc cur [] = (if cur = [] then [] else [cur])"
| "split_acc cur (c # cs) =
     (if is_space c then (if cur = [] then split_acc [] cs else cur # split_acc [] cs)
      else split_acc (cur @ [c]) cs)"

definition split :: "string \<Rightarrow> string list" where
  \<comment> \<open>\<open>s.split()\<close>: the maximal runs of characters that are not whitespace\<close>
  "split s = split_acc [] s"

fun splitlines_acc :: "string \<Rightarrow> string \<Rightarrow> string list" where
  "splitlines_acc cur [] = (if cur = [] then [] else [cur])"
| "splitlines_acc cur [c] = (if is_linebreak c then [cur] else [cur @ [c]])"
| "splitlines_acc cur (c # d # cs) =
     (if c = CHR 0x0D \<and> d = CHR 0x0A then cur # splitlines_acc [] cs
      else if is_linebreak c then cur # splitlines_acc [] (d # cs)
      else splitlines_acc (cur @ [c]) (d # cs))"

definition splitlines :: "string \<Rightarrow> string list" where
  "splitlines s = splitlines_acc [] s"

definition startswith :: "string \<Rightarrow> string \<Rightarrow> bool" where
  "startswith s p = (take (length p) s = p)"

subsection \<open>\<open>int()\<close>, \<open>float()\<close> and \<open>str()\<close> on text and numbers\<close>

fun digitpart :: "string \<Rightarrow> bool" where
  \<comment> \<open>\<open>digit (["_"] digit)*\<close>\<close>
  "digitpart [] = False"
| "digitpart [c] = is_digit c"
| "digitpart (c # d # cs) =
     (is_digit c \<and> (if d = CHR ''_'' then digitpart cs else digitpart (d # cs)))"

fun dec_of :: "nat \<Rightarrow> string \<Rightarrow> nat" where
  "dec_of n [] = n"
| "dec_of n (c # cs) = dec_of (10 * n + digit_val c) cs"

definition digits_val :: "string \<Rightarrow> nat" where
  \<comment> \<open>the value of a digit part, its underscores dropped\<close>
  "digits_val s = dec_of 0 (filter is_digit s)"

definition split_sign :: "string \<Rightarrow> bool \<times> string" where
  \<comment> \<open>an optional sign: whether it is a minus, and the text after it\<close>
  "split_sign s = (case s of [] \<Rightarrow> (False, [])
     | c # cs \<Rightarrow> if c = CHR ''-'' then (True, cs) else if c = CHR ''+'' then (False, cs)
                else (False, s))"

definition py_int :: "string \<Rightarrow> py_error + int" where
  \<comment> \<open>\<open>int(s)\<close>, base 10\<close>
  "py_int s = (case split_sign (strip s) of (neg, body) \<Rightarrow>
     if digitpart body
     then Inr (if neg then - int (digits_val body) else int (digits_val body))
     else Inl ValueError)"

definition scale10 :: "real \<Rightarrow> int \<Rightarrow> real" where
  "scale10 m e = (if 0 \<le> e then m * 10 ^ nat e else m / 10 ^ nat (- e))"

definition float_number :: "string \<Rightarrow> real option" where
  \<comment> \<open>\<open>number ::= [digitpart] "." digitpart | digitpart ["."]\<close>\<close>
  "float_number m =
     (let ip = takeWhile (\<lambda>c. c \<noteq> CHR ''.'') m; r = dropWhile (\<lambda>c. c \<noteq> CHR ''.'') m in
      if r = [] then (if digitpart ip then Some (real (digits_val ip)) else None)
      else let fp = tl r; k = length (filter is_digit fp) in
        if (ip = [] \<and> digitpart fp) \<or> (digitpart ip \<and> (fp = [] \<or> digitpart fp))
        then Some (real (digits_val ip) + real (digits_val fp) / 10 ^ k)
        else None)"

definition float_exponent :: "string \<Rightarrow> int option" where
  \<comment> \<open>the text after \<open>e\<close>: \<open>[sign] digitpart\<close>\<close>
  "float_exponent x = (case split_sign x of (neg, body) \<Rightarrow>
     if digitpart body
     then Some (if neg then - int (digits_val body) else int (digits_val body))
     else None)"

definition float_abs :: "string \<Rightarrow> pyfloat option" where
  \<comment> \<open>\<open>floatnumber | infinity | nan\<close>, the words in any letter case\<close>
  "float_abs b =
     (if map lower_ascii b = ''inf'' \<or> map lower_ascii b = ''infinity'' then Some PInf
      else if map lower_ascii b = ''nan'' then Some NaN
      else let notE = (\<lambda>c. c \<noteq> CHR ''e'' \<and> c \<noteq> CHR ''E'');
               m = takeWhile notE b; r = dropWhile notE b in
        case float_number m of None \<Rightarrow> None
        | Some v \<Rightarrow> if r = [] then Some (Fin v)
                    else (case float_exponent (tl r) of None \<Rightarrow> None
                          | Some e \<Rightarrow> Some (Fin (scale10 v e))))"

definition fneg :: "pyfloat \<Rightarrow> pyfloat" where
  "fneg x = (case x of Fin r \<Rightarrow> Fin (- r) | PInf \<Rightarrow> NInf | NInf \<Rightarrow> PInf | NaN \<Rightarrow> NaN)"

definition py_float :: "string \<Rightarrow> py_error + pyfloat" where
  \<comment> \<open>\<open>float(s)\<close> for a string \<open>s\<close>\<close>
  "py_float s = (case split_sign (strip s) of (neg, body) \<Rightarrow>
     (case float_abs body of None \<Rightarrow> Inl ValueError
      | Some x \<Rightarrow> Inr (if neg then fneg x else x)))"

definition py_float_opt :: "string option \<Rightarrow> py_error + pyfloat" where
  \<comment> \<open>\<open>float(g)\<close> for a match group \<open>g\<close>, which is \<open>None\<close> when the group took no part\<close>
  "py_float_opt g = (case g of None \<Rightarrow> Inl TypeError | Some s \<Rightarrow> py_float s)"

definition digit_char :: "nat \<Rightarrow> char" where
  "digit_char d = char_of (48 + d)"

fun str_nat_fuel :: "nat \<Rightarrow> nat \<Rightarrow> string" where
  \<comment> \<open>decimal digits of \<open>n\<close>; the first argument bounds the number of digits\<close>
  "str_nat_fuel 0 n = [digit_char (n mod 10)]"
| "str_nat_fuel (Suc f) n =
     (if n < 10 then [digit_char n] else str_nat_fuel f (n div 10) @ [digit_char (n mod 10)])"

definition str_nat :: "nat \<Rightarrow> string" where
  "str_nat n = str_nat_fuel n n"

definition str_int :: "int \<Rightarrow> string" where
  \<comment> \<open>\<open>str(i)\<close> for an integer\<close>
  "str_int i = (if i < 0 then CHR ''-'' # str_nat (nat (- i)) else str_nat (nat i))"

definition bind_exn :: "py_error + 'a \<Rightarrow> ('a \<Rightarrow> py_error + 'b) \<Rightarrow> py_error + 'b" where
  \<comment> \<open>sequencing: an exception raised by the first step leaves the block\<close>
  "bind_exn x f = (case x of Inl e \<Rightarrow> Inl e | Inr v \<Rightarrow> f v)"

definition py_index :: "'a list \<Rightarrow> nat \<Rightarrow> py_error + 'a" where
  \<comment> \<open>\<open>xs[i]\<close> for an index that is not negative\<close>
  "py_index xs i = (if i < length xs then Inr (xs ! i) else Inl IndexError)"

section \<open>Traceroute output, Unix-like (\<open>_parse_traceroute_linux\<close>)\<close>

record TraceHop =
  hop :: int
  host :: string
  rtt_ms :: "pyfloat option"

definition hop_linux :: "string list \<Rightarrow> py_error + TraceHop" where
  \<comment> \<open>the body of the \<open>try\<close> in the loop: the hop to append, or the exception raised\<close>
  "hop_linux parts =
     bind_exn (py_index parts 0) (\<lambda>p0.
     bind_exn (py_int p0) (\<lambda>hop_no.
     bind_exn (py_index parts 1) (\<lambda>p1.
       if p1 = ''*'' then Inr \<lparr>hop = hop_no, TraceHop.host = ''timeout'', rtt_ms = None\<rparr>
       else if 2 < length parts
         then bind_exn (py_index parts 2) (\<lambda>p2.
              bind_exn (py_float p2) (\<lambda>r.
                Inr \<lparr>hop = hop_no, TraceHop.host = p1, rtt_ms = Some r\<rparr>))
         else Inr \<lparr>hop = hop_no, TraceHop.host = p1, rtt_ms = None\<rparr>)))"

fun trace_loop_linux :: "string list \<Rightarrow> TraceHop list \<Rightarrow> py_error + TraceHop list" where
  \<comment> \<open>the \<open>for line in lines[1:]\<close> loop, started with the hops collected so far\<close>
  "trace_loop_linux [] hops = Inr hops"
| "trace_loop_linux (line # lines) hops =
     (if strip line = [] then trace_loop_linux lines hops
      else if length (split line) < 2 then trace_loop_linux lines hops
      else (case hop_linux (split line) of
              Inr h \<Rightarrow> trace_loop_linux lines (hops @ [h])
            | Inl e \<Rightarrow> if e = ValueError \<or> e = IndexError then trace_loop_linux lines hops
                       else Inl e))"

definition parse_traceroute_linux :: "string \<Rightarrow> py_error + TraceHop list" where
  "parse_traceroute_linux output = trace_loop_linux (drop 1 (splitlines output)) []"

text \<open>
  The description of the Unix-like parser in the specification, as a function of one line:
  the line is split on whitespace; the first token is the hop number; a second token \<open>*\<close>
  gives the sentinel host with no round-trip time; otherwise the second token is the host
  and a third token, when there is one, is the round-trip time. A line that does not fit
  gives no hop.
\<close>

definition unix_hop_spec :: "string \<Rightarrow> TraceHop option" where
  "unix_hop_spec line = (case split line of
     t1 # t2 # ts \<Rightarrow>
       (case py_int t1 of Inl _ \<Rightarrow> None
        | Inr n \<Rightarrow>
            if t2 = ''*'' then Some \<lparr>hop = n, TraceHop.host = ''timeout'', rtt_ms = None\<rparr>
            else (case ts of
                    [] \<Rightarrow> Some \<lparr>hop = n, TraceHop.host = t2, rtt_ms = None\<rparr>
                  | t3 # _ \<Rightarrow> (case py_float t3 of Inl _ \<Rightarrow> None
                               | Inr r \<Rightarrow> Some \<lparr>hop = n, TraceHop.host = t2, rtt_ms = Some r\<rparr>)))
   | _ \<Rightarrow> None)"

section \<open>Regular expressions (\<open>re\<close>)\<close>

text \<open>
  The patterns of \<open>utils.py\<close> are sequences of literal text, of greedy repetitions of one
  character class (captured as a group or not) and of the anchor \<open>$\<close>, with alternatives
  at top level only. The matcher follows the backtracking order of \<open>re\<close>: a repetition
  first takes as many characters as it can and gives them back one at a time; an
  alternative is tried only when the ones before it fail; \<open>search\<close> takes the leftmost
  position where the pattern matches.
\<close>

datatype cls = Digit | DigitDot | Alpha | HostCh | AnyCh | Space

fun in_cls :: "cls \<Rightarrow> char \<Rightarrow> bool" where
  "in_cls Digit c = is_digit c"
| "in_cls DigitDot c = (is_digit c \<or> c = CHR ''.'')"
| "in_cls Alpha c = is_alpha c"
| "in_cls HostCh c = (is_alpha c \<or> is_digit c \<or> c = CHR ''.'' \<or> c = CHR ''-'')"
| "in_cls AnyCh c = (c \<noteq> CHR 0x0A)"
| "in_cls Space c = is_space c"

datatype item = Lit string | Many cls nat | Group cls nat | Eos

fun first_some :: "'a option list \<Rightarrow> 'a option" where
  "first_some [] = None"
| "first_some (None # xs) = first_some xs"
| "first_some (Some x # xs) = Some x"

definition counts_down :: "nat \<Rightarrow> nat \<Rightarrow> nat list" where
  \<comment> \<open>the numbers from \<open>hi\<close> down to \<open>lo\<close>\<close>
  "counts_down hi lo = rev [lo ..< Suc hi]"

fun match_here :: "item list \<Rightarrow> string \<Rightarrow> (string \<times> string list) option" where
  \<comment> \<open>a match that starts at the head of the text: the text matched and the groups\<close>
  "match_here [] s = Some ([], [])"
| "match_here (Lit l # its) s =
     (if startswith s l
      then map_option (\<lambda>(w, gs). (l @ w, gs)) (match_here its (drop (length l) s))
      else None)"
| "match_here (Many c n # its) s =
     first_some (map (\<lambda>k. map_option (\<lambda>(w, gs). (take k s @ w, gs))
                               (match_here its (drop k s)))
                     (counts_down (length (takeWhile (in_cls c) s)) n))"
| "match_here (Group c n # its) s =
     first_some (map (\<lambda>k. map_option (\<lambda>(w, gs). (take k s @ w, take k s # gs))
                               (match_here its (drop k s)))
                     (counts_down (length (takeWhile (in_cls c) s)) n))"
| "match_here (Eos # its) s =
     (if s = [] \<or> s = [CHR 0x0A] then match_here its s else None)"

fun ngroups :: "item list \<Rightarrow> nat" where
  "ngroups [] = 0"
| "ngroups (Group c n # its) = Suc (ngroups its)"
| "ngroups (_ # its) = ngroups its"

fun match_alts :: "item list list \<Rightarrow> string \<Rightarrow> (string \<times> string option list) option" where
  \<comment> \<open>the alternatives in order; the groups of the other alternatives are \<open>None\<close>\<close>
  "match_alts [] s = None"
| "match_alts (a # as) s =
     (case match_here a s of
        Some (w, gs) \<Rightarrow> Some (w, map Some gs @ replicate (sum_list (map ngroups as)) None)
      | None \<Rightarrow> map_option (\<lambda>(w, gs). (w, replicate (ngroups a) None @ gs)) (match_alts as s))"


fun re_search :: "item list list \<Rightarrow> string \<Rightarrow> (string \<times> string option list) option" where
  "re_search p [] = match_alts p []"
| "re_search p (c # cs) =
     (case match_alts p (c # cs) of Some m \<Rightarrow> Some m | None \<Rightarrow> re_search p cs)"

fun findall_skip :: "item list list \<Rightarrow> nat \<Rightarrow> string \<Rightarrow> string list" where
  \<comment> \<open>\<open>findall\<close> for a pattern with one group that matches no empty text: the group of every
      match, the matches not overlapping; the number counts the characters still covered
      by the last match\<close>
  "findall_skip p k [] = []"
| "findall_skip p k (c # cs) =
     (if 0 < k then findall_skip p (k - 1) cs
      else case match_alts p (c # cs) of
             None \<Rightarrow> findall_skip p 0 cs
           | Some (w, gs) \<Rightarrow>
               (case gs of Some g # _ \<Rightarrow> g | _ \<Rightarrow> []) # findall_skip p (length w - 1) cs)"

definition re_findall :: "item list list \<Rightarrow> string \<Rightarrow> string list" where
  "re_findall p s = findall_skip p 0 s"

definition group :: "string option list \<Rightarrow> nat \<Rightarrow> string option" where
  \<comment> \<open>\<open>m.group(i)\<close> for \<open>i\<close> from 1\<close>
  "group gs i = (if 0 < i \<and> i \<le> length gs then gs ! (i - 1) else None)"

definition PING_RE_LINUX :: "item list list" where
  \<comment> \<open>\<open>min/avg/max.*= ([\d.]+)/([\d.]+)/([\d.]+)\<close>\<close>
  "PING_RE_LINUX = [[Lit ''min/avg/max'', Many AnyCh 0, Lit ''= '', Group DigitDot 1,
                     Lit ''/'', Group DigitDot 1, Lit ''/'', Group DigitDot 1]]"

definition PING_RE_WINDOWS :: "item list list" where
  \<comment> \<open>\<open>Minimum = (\d+)ms, Maximum = (\d+)ms, Average = (\d+)ms\<close>\<close>
  "PING_RE_WINDOWS = [[Lit ''Minimum = '', Group Digit 1, Lit ''ms, Maximum = '', Group Digit 1,
                       Lit ''ms, Average = '', Group Digit 1, Lit ''ms'']]"

definition LOSS_RE :: "item list list" where
  \<comment> \<open>\<open>(\d+)% packet loss|(\d+)% perdidos\<close>\<close>
  "LOSS_RE = [[Group Digit 1, Lit ''% packet loss''], [Group Digit 1, Lit ''% perdidos'']]"

section \<open>Ping output (\<open>_parse_ping_linux\<close>, \<open>_parse_ping_windows\<close>)\<close>

record PingResult =
  host :: string
  packets_transmitted :: int
  packets_received :: int
  packet_loss :: pyfloat
  min_ms :: pyfloat
  avg_ms :: pyfloat
  max_ms :: pyfloat
  timestamp :: string

definition int_times_float :: "int \<Rightarrow> pyfloat \<Rightarrow> pyfloat" where
  \<comment> \<open>\<open>n * x\<close> for an integer \<open>n\<close> and a float \<open>x\<close>\<close>
  "int_times_float n x = (case x of
       Fin r \<Rightarrow> Fin (of_int n * r)
     | PInf \<Rightarrow> (if 0 < n then PInf else if n < 0 then NInf else NaN)
     | NInf \<Rightarrow> (if 0 < n then NInf else if n < 0 then PInf else NaN)
     | NaN \<Rightarrow> NaN)"

definition float_over_100 :: "pyfloat \<Rightarrow> pyfloat" where
  \<comment> \<open>\<open>x / 100\<close>\<close>
  "float_over_100 x = (case x of Fin r \<Rightarrow> Fin (r / 100) | PInf \<Rightarrow> PInf | NInf \<Rightarrow> NInf
                       | NaN \<Rightarrow> NaN)"

definition trunc0 :: "real \<Rightarrow> int" where
  \<comment> \<open>the fraction cut off, towards zero\<close>
  "trunc0 x = (if 0 \<le> x then \<lfloor>x\<rfloor> else \<lceil>x\<rceil>)"

definition int_of_float :: "pyfloat \<Rightarrow> py_error + int" where
  \<comment> \<open>\<open>int(x)\<close>\<close>
  "int_of_float x = (case x of
       Fin r \<Rightarrow> Inr (trunc0 r)
     | PInf \<Rightarrow> Inl OverflowError | NInf \<Rightarrow> Inl OverflowError | NaN \<Rightarrow> Inl ValueError)"

definition py_or :: "string option \<Rightarrow> string option \<Rightarrow> string option" where
  \<comment> \<open>\<open>a or b\<close>: \<open>None\<close> and the empty string count as false\<close>
  "py_or a b = (case a of None \<Rightarrow> b | Some s \<Rightarrow> if s = [] then b else Some s)"

definition full_loss :: "string \<Rightarrow> string \<Rightarrow> int \<Rightarrow> PingResult" where
  \<comment> \<open>the dictionary returned on a failure; \<open>now\<close> is \<open>datetime.now().isoformat()\<close>\<close>
  "full_loss now h count =
     \<lparr>host = h, packets_transmitted = count, packets_received = 0, packet_loss = Fin 100,
      min_ms = Fin 0, avg_ms = Fin 0, max_ms = Fin 0, timestamp = now\<rparr>"

definition float3 :: "string option list \<Rightarrow> py_error + pyfloat \<times> pyfloat \<times> pyfloat" where
  \<comment> \<open>\<open>map(float, time_match.groups())\<close>, unpacked into three names\<close>
  "float3 gs =
     bind_exn (py_float_opt (group gs 1)) (\<lambda>a.
     bind_exn (py_float_opt (group gs 2)) (\<lambda>b.
     bind_exn (py_float_opt (group gs 3)) (\<lambda>c. Inr (a, b, c))))"

definition ping_body_linux :: "string \<Rightarrow> string \<Rightarrow> string \<Rightarrow> int \<Rightarrow> py_error + PingResult" where
  \<comment> \<open>the \<open>try\<close> block of \<open>_parse_ping_linux\<close>\<close>
  "ping_body_linux now output h count =
     bind_exn (case re_search PING_RE_LINUX output of
                 Some (w, gs) \<Rightarrow> float3 gs
               | None \<Rightarrow> Inr (Fin 0, Fin 0, Fin 0)) (\<lambda>(mn, av, mx).
     bind_exn (case re_search LOSS_RE output of
                 Some (w, gs) \<Rightarrow> py_float_opt (group gs 1)
               | None \<Rightarrow> Inr (Fin 0)) (\<lambda>loss.
     bind_exn (int_of_float (float_over_100 (int_times_float count loss))) (\<lambda>lost.
       Inr \<lparr>host = h, packets_transmitted = count, packets_received = count - lost,
            packet_loss = loss, min_ms = mn, avg_ms = av, max_ms = mx, timestamp = now\<rparr>)))"

definition parse_ping_linux :: "string \<Rightarrow> string \<Rightarrow> string \<Rightarrow> int \<Rightarrow> PingResult" where
  \<comment> \<open>\<open>_parse_ping_linux\<close>: \<open>except Exception\<close> turns every exception into the failure result\<close>
  "parse_ping_linux now output h count =
     (case ping_body_linux now output h count of
        Inr r \<Rightarrow> r | Inl e \<Rightarrow> full_loss now h count)"

definition ping_body_windows :: "string \<Rightarrow> string \<Rightarrow> string \<Rightarrow> int \<Rightarrow> py_error + PingResult" where
  \<comment> \<open>the \<open>try\<close> block of \<open>_parse_ping_windows\<close>; the groups are unpacked as min, max, avg\<close>
  "ping_body_windows now output h count =
     bind_exn (case re_search PING_RE_WINDOWS output of
                 Some (w, gs) \<Rightarrow> float3 gs
               | None \<Rightarrow> Inr (Fin 0, Fin 0, Fin 0)) (\<lambda>(mn, mx, av).
     bind_exn (case re_search LOSS_RE output of
                 Some (w, gs) \<Rightarrow> py_float_opt (py_or (group gs 1) (group gs 2))
               | None \<Rightarrow> Inr (Fin 0)) (\<lambda>loss.
     bind_exn (int_of_float (float_over_100 (int_times_float count loss))) (\<lambda>lost.
       Inr \<lparr>host = h, packets_transmitted = count, packets_received = count - lost,
            packet_loss = loss, min_ms = mn, avg_ms = av, max_ms = mx, timestamp = now\<rparr>)))"

definition parse_ping_windows :: "string \<Rightarrow> string \<Rightarrow> string \<Rightarrow> int \<Rightarrow> PingResult" where
  "parse_ping_windows now output h count =
     (case ping_body_windows now output h count of
        Inr r \<Rightarrow> r | Inl e \<Rightarrow> full_loss now h count)"

section \<open>Running the probes (\<open>ping\<close>, \<open>traceroute\<close>)\<close>

text \<open>
  What the functions read from outside is a parameter: the platform name, the clock, the
  file system test of the locator, and what \<open>subprocess.run\<close> does with an argument vector.
  \<open>subprocess.run\<close> either completes with a return code and the captured standard output,
  or raises \<open>TimeoutExpired\<close>, or raises another exception (an \<open>OSError\<close> when the command
  cannot be started).
\<close>

datatype proc = Completed int string | TimeoutExpired | Raised py_error

record world =
  system :: string
  now :: string
  executable :: "string \<Rightarrow> bool"
  run :: "string list \<Rightarrow> proc"

definition fixed_world :: "string \<Rightarrow> string \<Rightarrow> proc \<Rightarrow> world" where
  \<comment> \<open>a world for examples: every command has the same outcome, no path is executable\<close>
  "fixed_world sys t r = \<lparr>system = sys, now = t, executable = (\<lambda>p. False), run = (\<lambda>cmd. r)\<rparr>"

definition ping_cmd :: "string \<Rightarrow> string \<Rightarrow> int \<Rightarrow> int \<Rightarrow> string list" where
  "ping_cmd sys h count timeout =
     (if sys = ''windows''
      then [''ping'', ''-n'', str_int count, ''-w'', str_int (timeout * 1000), h]
      else [''ping'', ''-c'', str_int count, ''-W'', str_int timeout, h])"

definition ping :: "world \<Rightarrow> string \<Rightarrow> int \<Rightarrow> int \<Rightarrow> py_error + PingResult" where
  "ping w h count timeout =
     (case run w (ping_cmd (system w) h count timeout) of
        Completed returncode output \<Rightarrow>
          if returncode \<noteq> 0 then Inr (full_loss (now w) h count)
          else if system w = ''windows'' then Inr (parse_ping_windows (now w) output h count)
          else Inr (parse_ping_linux (now w) output h count)
      | TimeoutExpired \<Rightarrow> Inr (full_loss (now w) h count)
      | Raised e \<Rightarrow> Inl e)"

fun find_traceroute :: "world \<Rightarrow> string list \<Rightarrow> string option" where
  \<comment> \<open>the loop over \<open>traceroute_paths\<close>; an exception in the test of a path skips the path\<close>
  "find_traceroute w [] = None"
| "find_traceroute w (path # paths) =
     (if path = ''traceroute''
      then (case run w [''which'', ''traceroute''] of
              Completed returncode output \<Rightarrow>
                if returncode = 0 then Some ''traceroute'' else find_traceroute w paths
            | _ \<Rightarrow> find_traceroute w paths)
      else if executable w path then Some path
      else find_traceroute w paths)"

definition traceroute_paths :: "string list" where
  "traceroute_paths =
     [''traceroute'', ''/usr/bin/traceroute'', ''/usr/sbin/traceroute'', ''/bin/traceroute'']"

definition traceroute_cmd :: "world \<Rightarrow> string \<Rightarrow> int \<Rightarrow> string list" where
  "traceroute_cmd w h max_hops =
     (if system w = ''windows'' then [''tracert'', ''-h'', str_int max_hops, h]
      else [case find_traceroute w traceroute_paths of None \<Rightarrow> ''traceroute'' | Some p \<Rightarrow> p,
            ''-n'', ''-m'', str_int max_hops, h])"

section \<open>Traceroute output, Windows (\<open>_parse_traceroute_windows\<close>)\<close>

definition ip_pattern :: "item list list" where
  \<comment> \<open>\<open>\d+\.\d+\.\d+\.\d+\<close>\<close>
  "ip_pattern = [[Many Digit 1, Lit ''.'', Many Digit 1, Lit ''.'', Many Digit 1, Lit ''.'',
                  Many Digit 1]]"

definition time_pattern :: "item list list" where
  \<comment> \<open>\<open>(\d+)\s*ms\<close>\<close>
  "time_pattern = [[Group Digit 1, Many Space 0, Lit ''ms'']]"

definition hop_windows :: "string \<Rightarrow> py_error + TraceHop" where
  \<comment> \<open>the body of the \<open>try\<close> in the loop\<close>
  "hop_windows line =
     bind_exn (py_index (split line) 0) (\<lambda>p0.
     bind_exn (py_int p0) (\<lambda>hop_no.
       case re_search ip_pattern line of
         Some (host_ip, gs) \<Rightarrow>
           (let time_matches = re_findall time_pattern line in
            if time_matches \<noteq> []
            then bind_exn (py_index time_matches 0) (\<lambda>t.
                 bind_exn (py_float t) (\<lambda>r.
                   Inr \<lparr>hop = hop_no, TraceHop.host = host_ip, rtt_ms = Some r\<rparr>))
            else Inr \<lparr>hop = hop_no, TraceHop.host = host_ip, rtt_ms = None\<rparr>)
       | None \<Rightarrow> Inr \<lparr>hop = hop_no, TraceHop.host = ''timeout'', rtt_ms = None\<rparr>))"

fun trace_loop_windows :: "nat \<Rightarrow> string list \<Rightarrow> TraceHop list \<Rightarrow> py_error + TraceHop list" where
  \<comment> \<open>the \<open>for i, line in enumerate(lines)\<close> loop from index \<open>i\<close> on\<close>
  "trace_loop_windows i [] hops = Inr hops"
| "trace_loop_windows i (line # lines) hops =
     (if startswith (strip line) (str_nat (i + 1))
      then (case hop_windows line of
              Inr h \<Rightarrow> trace_loop_windows (i + 1) lines (hops @ [h])
            | Inl e \<Rightarrow> if e = ValueError \<or> e = IndexError
                       then trace_loop_windows (i + 1) lines hops else Inl e)
      else trace_loop_windows (i + 1) lines hops)"

definition parse_traceroute_windows :: "string \<Rightarrow> py_error + TraceHop list" where
  "parse_traceroute_windows output = trace_loop_windows 0 (splitlines output) []"

definition traceroute :: "world \<Rightarrow> string \<Rightarrow> int \<Rightarrow> py_error + TraceHop list" where
  "traceroute w h max_hops =
     (case run w (traceroute_cmd w h max_hops) of
        Completed returncode output \<Rightarrow>
          if system w = ''windows'' then parse_traceroute_windows output
          else parse_traceroute_linux output
      | TimeoutExpired \<Rightarrow> Inr []
      | Raised e \<Rightarrow> Inl e)"

section \<open>Host names (\<open>is_valid_host\<close>)\<close>











subsection \<open>The accepted host texts as the specification words them\<close>






section \<open>Properties\<close>

subsection \<open>Text primitives\<close>

lemma all_dropWhile: "(\<forall>x\<in>set (dropWhile P s). P x) \<longleftrightarrow> (\<forall>x\<in>set s. P x)"
  by (induction s) auto

lemma split_acc_Nil_iff: "split_acc cur s = [] \<longleftrightarrow> cur = [] \<and> (\<forall>c\<in>set s. is_space c)"
  by (induction s arbitrary: cur) auto

lemma strip_Nil_iff: "strip s = [] \<longleftrightarrow> (\<forall>c\<in>set s. is_space c)"
  by (simp add: strip_def all_dropWhile)

lemma strip_Nil_split: "strip s = [] \<longleftrightarrow> split s = []"
  by (simp add: strip_Nil_iff split_def split_acc_Nil_iff)

lemma py_int_error: "py_int s = Inl e \<Longrightarrow> e = ValueError"
  by (auto simp: py_int_def split: prod.splits if_splits)

lemma py_float_error: "py_float s = Inl e \<Longrightarrow> e = ValueError"
  by (auto simp: py_float_def split: prod.splits option.splits)

subsection \<open>The Unix-like traceroute parser\<close>

lemma hop_linux_spec:
  assumes "2 \<le> length (split line)"
  shows "hop_linux (split line) =
    (case unix_hop_spec line of Some h \<Rightarrow> Inr h | None \<Rightarrow> Inl ValueError)"
proof -
  from assms obtain t1 t2 ts where p: "split line = t1 # t2 # ts"
    by (cases "split line"; simp; rename_tac a as; case_tac as; simp)
  show ?thesis
    by (auto simp: p hop_linux_def unix_hop_spec_def bind_exn_def py_index_def
        split: sum.splits list.splits dest: py_int_error py_float_error)
qed

lemma unix_hop_spec_short: "length (split line) < 2 \<Longrightarrow> unix_hop_spec line = None"
  by (cases "split line"; simp add: unix_hop_spec_def; rename_tac a as; case_tac as; simp)

lemma trace_loop_linux_spec:
  "trace_loop_linux lines hops = Inr (hops @ List.map_filter unix_hop_spec lines)"
proof (induction lines arbitrary: hops)
  case Nil
  show ?case by simp
next
  case (Cons line lines)
  show ?case
  proof (cases "length (split line) < 2")
    case True
    then show ?thesis
      using Cons.IH by (simp add: unix_hop_spec_short)
  next
    case False
    then have ne: "strip line \<noteq> []" by (auto simp: strip_Nil_split)
    from False have "2 \<le> length (split line)" by simp
    note hs = hop_linux_spec [OF this]
    show ?thesis
      using False ne Cons.IH
      by (cases "unix_hop_spec line") (simp_all add: hs)
  qed
qed

lemma unix_example_timeout:
  "parse_traceroute_linux ''traceroute to 192.0.2.1\<newline>3 * ''
     = Inr [\<lparr>hop = 3, TraceHop.host = ''timeout'', rtt_ms = None\<rparr>]"
  by code_simp

lemma unix_example_reply:
  "parse_traceroute_linux ''traceroute to 192.0.2.1\<newline>5 192.0.2.1 23.4 ms''
     = Inr [\<lparr>hop = 5, TraceHop.host = ''192.0.2.1'', rtt_ms = Some (Fin 23.4)\<rparr>]"
  by code_simp

text \<open>
  C7. The Unix-like traceroute parser never raises. It drops the first line of the output
  and turns every other line into at most one hop, as the specification describes it
  (\<^const>\<open>unix_hop_spec\<close>): blank lines, lines with fewer than two tokens, lines whose first
  token is not an integer and lines whose third token is not a number give no hop; a second
  token \<open>*\<close> gives the host \<open>timeout\<close> without a round-trip time; otherwise the second
  token is the host and the third token, when present, the round-trip time. After a header
  line, the line \<open>3 * \<close> gives hop 3 with host \<open>timeout\<close> and no time, and the line
  \<open>5 192.0.2.1 23.4 ms\<close> gives hop 5 with host \<open>192.0.2.1\<close> and time 23.4.
\<close>

theorem parse_traceroute_linux_by_line:
  "parse_traceroute_linux output
     = Inr (List.map_filter unix_hop_spec (drop 1 (splitlines output)))
   \<and> parse_traceroute_linux ''traceroute to 192.0.2.1\<newline>3 * ''
     = Inr [\<lparr>hop = 3, TraceHop.host = ''timeout'', rtt_ms = None\<rparr>]
   \<and> parse_traceroute_linux ''traceroute to 192.0.2.1\<newline>5 192.0.2.1 23.4 ms''
     = Inr [\<lparr>hop = 5, TraceHop.host = ''192.0.2.1'', rtt_ms = Some (Fin 23.4)\<rparr>]"
  using unix_example_timeout unix_example_reply
  by (simp add: parse_traceroute_linux_def trace_loop_linux_spec)

theorem parse_traceroute_linux_by_line_witness:
  "parse_traceroute_linux
     ''traceroute to 192.0.2.1\<newline> 1  10.0.0.1  0.5 ms\<newline>\<newline> 2  * * *\<newline>junk\<newline> x  10.0.0.9  1 ms\<newline> 4  10.0.0.7''
   = Inr [\<lparr>hop = 1, TraceHop.host = ''10.0.0.1'', rtt_ms = Some (Fin 0.5)\<rparr>,
          \<lparr>hop = 2, TraceHop.host = ''timeout'', rtt_ms = None\<rparr>,
          \<lparr>hop = 4, TraceHop.host = ''10.0.0.7'', rtt_ms = None\<rparr>]"
proof -
  have "List.map_filter unix_hop_spec (drop 1 (splitlines
     ''traceroute to 192.0.2.1\<newline> 1  10.0.0.1  0.5 ms\<newline>\<newline> 2  * * *\<newline>junk\<newline> x  10.0.0.9  1 ms\<newline> 4  10.0.0.7''))
   = [\<lparr>hop = 1, TraceHop.host = ''10.0.0.1'', rtt_ms = Some (Fin 0.5)\<rparr>,
      \<lparr>hop = 2, TraceHop.host = ''timeout'', rtt_ms = None\<rparr>,
      \<lparr>hop = 4, TraceHop.host = ''10.0.0.7'', rtt_ms = None\<rparr>]"
    by code_simp
  then show ?thesis
    using parse_traceroute_linux_by_line by simp
qed

subsection \<open>Numbers written with digits\<close>

lemma digit_chars:
  assumes "is_digit c"
  shows "\<not> is_space c" "c \<noteq> CHR ''_''" "c \<noteq> CHR ''-''" "c \<noteq> CHR ''+''" "c \<noteq> CHR ''.''"
    "c \<noteq> CHR ''e''" "c \<noteq> CHR ''E''" "lower_ascii c = c" "c \<noteq> CHR ''i''" "c \<noteq> CHR ''n''"
  using assms by (auto simp: is_digit_def is_space_def lower_ascii_def)

lemma digitpart_digits: "s \<noteq> [] \<Longrightarrow> list_all is_digit s \<Longrightarrow> digitpart s"
  by (induction s rule: digitpart.induct) (simp_all add: digit_chars(2))

lemma strip_id: "s \<noteq> [] \<Longrightarrow> \<not> is_space (hd s) \<Longrightarrow> \<not> is_space (last s) \<Longrightarrow> strip s = s"
proof -
  assume a: "s \<noteq> []" "\<not> is_space (hd s)" "\<not> is_space (last s)"
  then have 1: "dropWhile is_space s = s" by (cases s) auto
  from a have "dropWhile is_space (rev s) = rev s"
    by (cases "rev s") (auto simp: hd_rev last_rev)
  with 1 show ?thesis by (simp add: strip_def)
qed

lemma strip_digits:
  assumes "s \<noteq> []" "list_all is_digit s"
  shows "strip s = s"
proof -
  have "is_digit (hd s)" "is_digit (last s)"
    using assms by (simp_all add: list_all_iff)
  then have "\<not> is_space (hd s)" "\<not> is_space (last s)"
    by (simp_all add: digit_chars(1))
  with assms(1) show ?thesis by (simp add: strip_id)
qed

lemma split_sign_digits:
  assumes "s \<noteq> []" "list_all is_digit s"
  shows "split_sign s = (False, s)"
proof -
  from assms obtain c cs where s: "s = c # cs" "is_digit c" by (cases s) auto
  show ?thesis
    using s(2) by (simp add: s(1) split_sign_def digit_chars(3,4))
qed

lemma takeWhile_all: "list_all P s \<Longrightarrow> takeWhile P s = s \<and> dropWhile P s = []"
  by (induction s) auto

lemma float_number_digits:
  assumes "s \<noteq> []" "list_all is_digit s"
  shows "float_number s = Some (real (digits_val s))"
proof -
  have "list_all (\<lambda>c. c \<noteq> CHR ''.'') s"
    using assms(2) by (induction s) (simp_all add: digit_chars(5))
  from takeWhile_all [OF this]
  have tw: "takeWhile (\<lambda>c. c \<noteq> CHR ''.'') s = s" "dropWhile (\<lambda>c. c \<noteq> CHR ''.'') s = []"
    by simp_all
  show ?thesis
    using assms by (simp add: float_number_def tw digitpart_digits)
qed

lemma float_abs_digits:
  assumes "s \<noteq> []" "list_all is_digit s"
  shows "float_abs s = Some (Fin (real (digits_val s)))"
proof -
  from assms obtain c cs where s: "s = c # cs" "is_digit c" by (cases s) auto
  have low: "map lower_ascii s = s"
    using assms(2) by (induction s) (simp_all add: digit_chars(8))
  have nw: "s \<noteq> ''inf''" "s \<noteq> ''infinity''" "s \<noteq> ''nan''"
    using s(2) by (simp_all add: s(1) digit_chars(9,10))
  have "list_all (\<lambda>c. c \<noteq> CHR ''e'' \<and> c \<noteq> CHR ''E'') s"
    using assms(2) by (induction s) (simp_all add: digit_chars(6,7))
  from takeWhile_all [OF this]
  have tw: "takeWhile (\<lambda>c. c \<noteq> CHR ''e'' \<and> c \<noteq> CHR ''E'') s = s"
    "dropWhile (\<lambda>c. c \<noteq> CHR ''e'' \<and> c \<noteq> CHR ''E'') s = []"
    by simp_all
  show ?thesis
    using assms by (simp add: float_abs_def low nw tw float_number_digits)
qed

lemma py_float_digits:
  "s \<noteq> [] \<Longrightarrow> list_all is_digit s \<Longrightarrow> py_float s = Inr (Fin (real (digits_val s)))"
  by (simp add: py_float_def strip_digits split_sign_digits float_abs_digits)

subsection \<open>The matcher\<close>

lemma counts_down_Cons: "n \<le> m \<Longrightarrow> counts_down m n = m # rev [n..<m]"
  by (simp add: counts_down_def)

lemma set_counts_down: "set (counts_down m n) = {n..m}"
  by (auto simp: counts_down_def)

lemma first_some_map_Some:
  "first_some (map f ks) = Some r \<Longrightarrow> \<exists>k\<in>set ks. f k = Some r"
proof (induction ks)
  case Nil
  then show ?case by simp
next
  case (Cons k ks)
  then show ?case by (cases "f k") auto
qed


lemma takeWhile_append_stop:
  "list_all P a \<Longrightarrow> s = [] \<or> \<not> P (hd s) \<Longrightarrow> takeWhile P (a @ s) = a"
  by (induction a) (auto simp: takeWhile_eq_Nil_iff)

lemma take_takeWhile_all: "k \<le> length (takeWhile P t) \<Longrightarrow> list_all P (take k t)"
proof (induction t arbitrary: k)
  case Nil
  then show ?case by simp
next
  case (Cons x t)
  then show ?case by (cases k) (auto split: if_splits)
qed



lemma match_Many_max:
  assumes "list_all (in_cls c) a" "n \<le> length a" "s = [] \<or> \<not> in_cls c (hd s)"
    and "match_here its s = Some (w, gs)"
  shows "match_here (Many c n # its) (a @ s) = Some (a @ w, gs)"
proof -
  have tw: "takeWhile (in_cls c) (a @ s) = a"
    using assms(1,3) by (rule takeWhile_append_stop)
  show ?thesis
    using assms(2,4) by (simp add: tw counts_down_Cons)
qed

lemma match_Group_elim:
  assumes "match_here (Group c n # its) s = Some (w, gs)"
  shows "\<exists>k w' gs'. n \<le> k \<and> k \<le> length (takeWhile (in_cls c) s)
           \<and> match_here its (drop k s) = Some (w', gs')
           \<and> w = take k s @ w' \<and> gs = take k s # gs'"
proof -
  from assms obtain k where k: "k \<in> set (counts_down (length (takeWhile (in_cls c) s)) n)"
    and m: "map_option (\<lambda>(w, gs). (take k s @ w, take k s # gs)) (match_here its (drop k s))
            = Some (w, gs)"
    by (auto dest!: first_some_map_Some)
  from m obtain w' gs' where "match_here its (drop k s) = Some (w', gs')"
    "w = take k s @ w'" "gs = take k s # gs'"
    by auto
  with k show ?thesis
    by (auto simp: set_counts_down)
qed

lemma match_Many_elim:
  assumes "match_here (Many c n # its) s = Some (w, gs)"
  shows "\<exists>k w'. n \<le> k \<and> k \<le> length (takeWhile (in_cls c) s)
           \<and> match_here its (drop k s) = Some (w', gs)
           \<and> w = take k s @ w'"
proof -
  from assms obtain k where k: "k \<in> set (counts_down (length (takeWhile (in_cls c) s)) n)"
    and m: "map_option (\<lambda>(w, gs). (take k s @ w, gs)) (match_here its (drop k s))
            = Some (w, gs)"
    by (auto dest!: first_some_map_Some)
  from m obtain w' where "match_here its (drop k s) = Some (w', gs)" "w = take k s @ w'"
    by auto
  with k show ?thesis
    by (auto simp: set_counts_down)
qed

lemma re_search_Some: "re_search p s = Some m \<Longrightarrow> \<exists>t. match_alts p t = Some m"
proof (induction s)
  case Nil
  then show ?case by auto
next
  case (Cons c cs)
  then show ?case by (cases "match_alts p (c # cs)") auto
qed



subsection \<open>The ping patterns\<close>

lemma in_cls_Digit: "in_cls Digit = is_digit"
  by (rule ext) simp



lemma loss_groups:
  assumes "match_alts LOSS_RE t = Some (w, gs)"
  shows "\<exists>d. d \<noteq> [] \<and> list_all is_digit d \<and> (gs = [Some d, None] \<or> gs = [None, Some d])"
proof -
  have g: "\<exists>d. d \<noteq> [] \<and> list_all is_digit d \<and> gs' = [d]"
    if "match_here [Group Digit 1, Lit l] t = Some (w', gs')" for l w' gs'
  proof -
    from match_Group_elim [OF that] obtain k w'' gs'' where
      k: "1 \<le> k" "k \<le> length (takeWhile is_digit t)"
      and r: "match_here [Lit l] (drop k t) = Some (w'', gs'')" "gs' = take k t # gs''"
      by (auto simp: in_cls_Digit)
    from r(1) have "gs'' = []" by (auto split: if_splits)
    moreover have "list_all is_digit (take k t)" using k(2) by (rule take_takeWhile_all)
    moreover have "take k t \<noteq> []"
      using k length_takeWhile_le [of is_digit t] by (cases t) auto
    ultimately show ?thesis using r(2) by simp
  qed
  show ?thesis
  proof (cases "match_here [Group Digit 1, Lit ''% packet loss''] t")
    case (Some m)
    then obtain w' gs' where m: "m = (w', gs')" by (cases m)
    from g [OF Some [unfolded m]] assms Some m show ?thesis
      by (auto simp: LOSS_RE_def)
  next
    case None
    with assms obtain w' gs' where
      s: "match_here [Group Digit 1, Lit ''% perdidos''] t = Some (w', gs')" "gs = None # map Some gs'"
      by (auto simp: LOSS_RE_def split: option.splits)
    from g [OF s(1)] s(2) show ?thesis by auto
  qed
qed


subsection \<open>The shape of a ping outcome\<close>

lemma lost_Fin:
  "int_of_float (float_over_100 (int_times_float count (Fin x))) = Inr (trunc0 (of_int count * x / 100))"
  by (simp add: int_of_float_def float_over_100_def int_times_float_def)

lemma loss_value_windows:
  "\<exists>n::nat. (case re_search LOSS_RE output of
                Some (w, gs) \<Rightarrow> py_float_opt (py_or (group gs 1) (group gs 2))
              | None \<Rightarrow> Inr (Fin 0)) = Inr (Fin (real n))"
proof (cases "re_search LOSS_RE output")
  case None
  then show ?thesis by (auto intro: exI [of _ 0])
next
  case (Some m)
  obtain w gs where m: "m = (w, gs)" by (cases m)
  from re_search_Some [OF Some] obtain t where "match_alts LOSS_RE t = Some (w, gs)"
    by (auto simp: m)
  from loss_groups [OF this] obtain d where
    d: "d \<noteq> []" "list_all is_digit d" "gs = [Some d, None] \<or> gs = [None, Some d]"
    by blast
  from d(3) have "py_or (group gs 1) (group gs 2) = Some d"
    using d(1) by (auto simp: py_or_def group_def)
  then show ?thesis
    using d(1,2) by (simp add: Some m py_float_opt_def py_float_digits)
qed

lemma loss_value_linux:
  assumes "(case re_search LOSS_RE output of
              Some (w, gs) \<Rightarrow> py_float_opt (group gs 1)
            | None \<Rightarrow> Inr (Fin 0)) = Inr x"
  shows "\<exists>n::nat. x = Fin (real n)"
proof (cases "re_search LOSS_RE output")
  case None
  with assms show ?thesis by (auto intro: exI [of _ 0])
next
  case (Some m)
  obtain w gs where m: "m = (w, gs)" by (cases m)
  from re_search_Some [OF Some] obtain t where "match_alts LOSS_RE t = Some (w, gs)"
    by (auto simp: m)
  from loss_groups [OF this] obtain d where
    d: "d \<noteq> []" "list_all is_digit d" "gs = [Some d, None] \<or> gs = [None, Some d]"
    by blast
  from d(3) show ?thesis
  proof
    assume "gs = [Some d, None]"
    with assms d(1,2) show ?thesis
      by (auto simp: Some m py_float_opt_def py_float_digits group_def)
  next
    assume "gs = [None, Some d]"
    with assms show ?thesis
      by (simp add: Some m py_float_opt_def group_def)
  qed
qed

lemma ping_body_linux_shape:
  assumes "ping_body_linux t output h count = Inr r"
  shows "\<exists>n::nat. packet_loss r = Fin (real n) \<and> packets_transmitted r = count
           \<and> packets_received r = count - trunc0 (of_int count * real n / 100)
           \<and> PingResult.host r = h \<and> timestamp r = t"
proof -
  from assms obtain mn av mx loss where
    l: "(case re_search LOSS_RE output of
              Some (w, gs) \<Rightarrow> py_float_opt (group gs 1)
            | None \<Rightarrow> Inr (Fin 0)) = Inr loss"
    and r: "bind_exn (int_of_float (float_over_100 (int_times_float count loss))) (\<lambda>lost.
       Inr \<lparr>PingResult.host = h, packets_transmitted = count, packets_received = count - lost,
            packet_loss = loss, min_ms = mn, avg_ms = av, max_ms = mx, timestamp = t\<rparr>) = Inr r"
    unfolding ping_body_linux_def bind_exn_def
    by (auto split: sum.splits)
  from loss_value_linux [OF l] obtain n :: nat where n: "loss = Fin (real n)" by blast
  from r show ?thesis
    unfolding n by (auto simp: bind_exn_def lost_Fin)
qed

lemma ping_body_windows_shape:
  assumes "ping_body_windows t output h count = Inr r"
  shows "\<exists>n::nat. packet_loss r = Fin (real n) \<and> packets_transmitted r = count
           \<and> packets_received r = count - trunc0 (of_int count * real n / 100)
           \<and> PingResult.host r = h \<and> timestamp r = t"
proof -
  from loss_value_windows [of "output"] obtain n :: nat where
    n: "(case re_search LOSS_RE output of
                Some (w, gs) \<Rightarrow> py_float_opt (py_or (group gs 1) (group gs 2))
              | None \<Rightarrow> Inr (Fin 0)) = Inr (Fin (real n))"
    by blast
  from assms show ?thesis
    unfolding ping_body_windows_def n
    by (auto simp: bind_exn_def lost_Fin split: sum.splits)
qed

lemma full_loss_shape:
  "packet_loss (full_loss t h count) = Fin (real 100) \<and> packets_transmitted (full_loss t h count) = count
     \<and> packets_received (full_loss t h count) = count - trunc0 (of_int count * real 100 / 100)
     \<and> PingResult.host (full_loss t h count) = h \<and> timestamp (full_loss t h count) = t"
  by (simp add: full_loss_def trunc0_def)

lemma parse_ping_shape:
  "\<exists>n::nat. packet_loss (parse_ping_linux t output h count) = Fin (real n)
      \<and> packets_transmitted (parse_ping_linux t output h count) = count
      \<and> packets_received (parse_ping_linux t output h count)
          = count - trunc0 (of_int count * real n / 100)"
  "\<exists>n::nat. packet_loss (parse_ping_windows t output h count) = Fin (real n)
      \<and> packets_transmitted (parse_ping_windows t output h count) = count
      \<and> packets_received (parse_ping_windows t output h count)
          = count - trunc0 (of_int count * real n / 100)"
proof -
  show "\<exists>n::nat. packet_loss (parse_ping_linux t output h count) = Fin (real n)
      \<and> packets_transmitted (parse_ping_linux t output h count) = count
      \<and> packets_received (parse_ping_linux t output h count)
          = count - trunc0 (of_int count * real n / 100)"
  proof (cases "ping_body_linux t output h count")
    case (Inl e)
    then show ?thesis
      using full_loss_shape [of t h count] by (auto simp: parse_ping_linux_def)
  next
    case (Inr r)
    from ping_body_linux_shape [OF this] show ?thesis
      by (auto simp: parse_ping_linux_def Inr)
  qed
  show "\<exists>n::nat. packet_loss (parse_ping_windows t output h count) = Fin (real n)
      \<and> packets_transmitted (parse_ping_windows t output h count) = count
      \<and> packets_received (parse_ping_windows t output h count)
          = count - trunc0 (of_int count * real n / 100)"
  proof (cases "ping_body_windows t output h count")
    case (Inl e)
    then show ?thesis
      using full_loss_shape [of t h count] by (auto simp: parse_ping_windows_def)
  next
    case (Inr r)
    from ping_body_windows_shape [OF this] show ?thesis
      by (auto simp: parse_ping_windows_def Inr)
  qed
qed

lemma ping_shape:
  assumes "ping w h count timeout = Inr r"
  shows "\<exists>n::nat. packet_loss r = Fin (real n) \<and> packets_transmitted r = count
           \<and> packets_received r = count - trunc0 (of_int count * real n / 100)"
proof (cases "run w (ping_cmd (system w) h count timeout)")
  case (Completed rc out)
  show ?thesis
    using assms full_loss_shape [of "now w" h count]
      parse_ping_shape [of "now w" out h count]
    by (auto simp: ping_def Completed split: if_splits)
next
  case TimeoutExpired
  then show ?thesis
    using assms full_loss_shape [of "now w" h count] by (auto simp: ping_def)
next
  case (Raised e)
  then show ?thesis using assms by (simp add: ping_def)
qed

subsection \<open>Round-trip times on Windows\<close>





subsection \<open>Failures of ping\<close>

text \<open>
  C2. When the ping command ends with a return code other than 0, or runs into the
  30-second limit of \<open>subprocess.run\<close>, or ends with return code 0 and the parsing of its
  output raises an exception, \<open>ping\<close> returns the outcome with \<open>packet_loss = 100.0\<close>,
  \<open>packets_received = 0\<close>, the three round-trip times \<open>0.0\<close> and
  \<open>packets_transmitted = count\<close>.
\<close>

theorem ping_failure_full_loss:
  assumes "run w (ping_cmd (system w) h count timeout) = r"
    and "(\<exists>rc out. r = Completed rc out \<and> rc \<noteq> 0)
         \<or> r = TimeoutExpired
         \<or> (\<exists>out e. r = Completed 0 out
               \<and> (if system w = ''windows'' then ping_body_windows (now w) out h count
                    else ping_body_linux (now w) out h count) = Inl e)"
  shows "ping w h count timeout
    = Inr \<lparr>PingResult.host = h, packets_transmitted = count, packets_received = 0,
           packet_loss = Fin 100, min_ms = Fin 0, avg_ms = Fin 0, max_ms = Fin 0,
           timestamp = now w\<rparr>"
  using assms(2)
proof (elim disjE exE conjE)
  fix rc out
  assume "r = Completed rc out" "rc \<noteq> 0"
  then show ?thesis
    using assms(1) by (simp add: ping_def full_loss_def)
next
  assume "r = TimeoutExpired"
  then show ?thesis
    using assms(1) by (simp add: ping_def full_loss_def)
next
  fix out e
  assume "r = Completed 0 out"
    "(if system w = ''windows'' then ping_body_windows (now w) out h count
      else ping_body_linux (now w) out h count) = Inl e"
  then show ?thesis
    using assms(1)
    by (simp add: ping_def full_loss_def parse_ping_windows_def parse_ping_linux_def
        split: if_splits)
qed

lemma linux_bad_number_raises:
  "ping_body_linux ''2024-05-01T10:00:00'' ''rtt min/avg/max/mdev = 1.2.3/4/5/6 ms'' ''8.8.8.8'' 4
     = Inl ValueError"
  by code_simp

theorem ping_failure_full_loss_witness:
  "ping (fixed_world ''linux'' ''2024-05-01T10:00:00'' (Completed 2 ''ping: unknown host''))
        ''8.8.8.8'' 4 2
     = Inr \<lparr>PingResult.host = ''8.8.8.8'', packets_transmitted = 4, packets_received = 0,
            packet_loss = Fin 100, min_ms = Fin 0, avg_ms = Fin 0, max_ms = Fin 0,
            timestamp = ''2024-05-01T10:00:00''\<rparr>
   \<and> ping (fixed_world ''windows'' ''2024-05-01T10:00:00'' TimeoutExpired) ''8.8.8.8'' 4 2
     = Inr \<lparr>PingResult.host = ''8.8.8.8'', packets_transmitted = 4, packets_received = 0,
            packet_loss = Fin 100, min_ms = Fin 0, avg_ms = Fin 0, max_ms = Fin 0,
            timestamp = ''2024-05-01T10:00:00''\<rparr>
   \<and> ping (fixed_world ''linux'' ''2024-05-01T10:00:00''
               (Completed 0 ''rtt min/avg/max/mdev = 1.2.3/4/5/6 ms'')) ''8.8.8.8'' 4 2
     = Inr \<lparr>PingResult.host = ''8.8.8.8'', packets_transmitted = 4, packets_received = 0,
            packet_loss = Fin 100, min_ms = Fin 0, avg_ms = Fin 0, max_ms = Fin 0,
            timestamp = ''2024-05-01T10:00:00''\<rparr>"
proof -
  have 1: "ping (fixed_world ''linux'' ''2024-05-01T10:00:00'' (Completed 2 ''ping: unknown host''))
        ''8.8.8.8'' 4 2
     = Inr \<lparr>PingResult.host = ''8.8.8.8'', packets_transmitted = 4, packets_received = 0,
            packet_loss = Fin 100, min_ms = Fin 0, avg_ms = Fin 0, max_ms = Fin 0,
            timestamp = now (fixed_world ''linux'' ''2024-05-01T10:00:00''
                               (Completed 2 ''ping: unknown host''))\<rparr>"
    by (rule ping_failure_full_loss [OF refl]) (simp add: fixed_world_def)
  have 2: "ping (fixed_world ''windows'' ''2024-05-01T10:00:00'' TimeoutExpired) ''8.8.8.8'' 4 2
     = Inr \<lparr>PingResult.host = ''8.8.8.8'', packets_transmitted = 4, packets_received = 0,
            packet_loss = Fin 100, min_ms = Fin 0, avg_ms = Fin 0, max_ms = Fin 0,
            timestamp = now (fixed_world ''windows'' ''2024-05-01T10:00:00'' TimeoutExpired)\<rparr>"
    by (rule ping_failure_full_loss [OF refl]) (simp add: fixed_world_def)
  have 3: "ping (fixed_world ''linux'' ''2024-05-01T10:00:00''
               (Completed 0 ''rtt min/avg/max/mdev = 1.2.3/4/5/6 ms'')) ''8.8.8.8'' 4 2
     = Inr \<lparr>PingResult.host = ''8.8.8.8'', packets_transmitted = 4, packets_received = 0,
            packet_loss = Fin 100, min_ms = Fin 0, avg_ms = Fin 0, max_ms = Fin 0,
            timestamp = now (fixed_world ''linux'' ''2024-05-01T10:00:00''
               (Completed 0 ''rtt min/avg/max/mdev = 1.2.3/4/5/6 ms''))\<rparr>"
    by (rule ping_failure_full_loss [OF refl])
       (simp add: fixed_world_def linux_bad_number_raises)
  from 1 2 3 show ?thesis
    by (simp add: fixed_world_def)
qed

subsection \<open>The Spanish loss line\<close>

text \<open>
  C4. On the output \<open>4 paquetes enviados, 4 recibidos, 0% perdidos\<close> the Unix-like parser
  reports a loss of 100.0 and no packet received, where the percentage before \<open>perdidos\<close>
  is 0: the pattern matches through its second alternative, group 1 is \<open>None\<close>, and
  \<open>float(None)\<close> raises inside the \<open>try\<close>. The Windows parser, which reads
  \<open>group(1) or group(2)\<close>, reports 0.0 and 4 packets received on the same output.
\<close>

theorem linux_perdidos_full_loss:
  "packet_loss (parse_ping_linux ''2024-05-01T10:00:00''
       ''4 paquetes enviados, 4 recibidos, 0% perdidos'' ''8.8.8.8'' 4) = Fin 100
   \<and> packets_received (parse_ping_linux ''2024-05-01T10:00:00''
       ''4 paquetes enviados, 4 recibidos, 0% perdidos'' ''8.8.8.8'' 4) = 0
   \<and> packet_loss (parse_ping_windows ''2024-05-01T10:00:00''
       ''4 paquetes enviados, 4 recibidos, 0% perdidos'' ''8.8.8.8'' 4) = Fin 0
   \<and> packets_received (parse_ping_windows ''2024-05-01T10:00:00''
       ''4 paquetes enviados, 4 recibidos, 0% perdidos'' ''8.8.8.8'' 4) = 4"
  by code_simp

subsection \<open>Packets received\<close>

text \<open>
  With \<open>count = -1\<close> and a ping command that ends with return code 2, the outcome has
  \<open>packets_transmitted = -1\<close> and \<open>packets_received = 0\<close>: more received than transmitted.
\<close>

theorem ping_negative_count_counterexample:
  "ping (fixed_world ''linux'' ''2024-05-01T10:00:00'' (Completed 2 [])) ''8.8.8.8'' (- 1) 2
     = Inr (full_loss ''2024-05-01T10:00:00'' ''8.8.8.8'' (- 1))
   \<and> \<not> packets_received (full_loss ''2024-05-01T10:00:00'' ''8.8.8.8'' (- 1))
         \<le> packets_transmitted (full_loss ''2024-05-01T10:00:00'' ''8.8.8.8'' (- 1))"
  by (simp add: ping_def fixed_world_def full_loss_def)

text \<open>
  C6. For every \<open>count\<close> that is not negative, every outcome returned by \<open>ping\<close> (on
  any path and either platform) has \<open>packets_received \<le> packets_transmitted\<close>, has
  \<open>packets_received = count\<close> when its \<open>packet_loss\<close> is 0.0, and has
  \<open>packets_received = count - floor(count * packet_loss / 100)\<close>.
\<close>

theorem ping_received_bounds:
  assumes "0 \<le> count" and "ping w h count timeout = Inr r"
  shows "packets_received r \<le> packets_transmitted r
       \<and> (packet_loss r = Fin 0 \<longrightarrow> packets_received r = count)
       \<and> (\<exists>l. packet_loss r = Fin l
              \<and> packets_received r = count - \<lfloor>of_int count * l / 100\<rfloor>)"
proof -
  from ping_shape [OF assms(2)] obtain n :: nat where
    n: "packet_loss r = Fin (real n)" "packets_transmitted r = count"
      "packets_received r = count - trunc0 (of_int count * real n / 100)"
    by blast
  have nn: "0 \<le> of_int count * real n / 100" using assms(1) by simp
  then have t: "trunc0 (of_int count * real n / 100) = \<lfloor>of_int count * real n / 100\<rfloor>"
    by (simp add: trunc0_def)
  have "0 \<le> \<lfloor>of_int count * real n / 100\<rfloor>" using nn by simp
  then show ?thesis
    using n t by auto
qed

lemma linux_sample_result:
  "parse_ping_linux ''2024-05-01T10:00:00''
     ''4 packets transmitted, 3 received, 25% packet loss, time 3004ms\<newline>rtt min/avg/max/mdev = 9.5/10.25/11.0/0.5 ms''
     ''8.8.8.8'' 4
   = \<lparr>PingResult.host = ''8.8.8.8'', packets_transmitted = 4, packets_received = 3,
      packet_loss = Fin 25, min_ms = Fin 9.5, avg_ms = Fin 10.25, max_ms = Fin 11,
      timestamp = ''2024-05-01T10:00:00''\<rparr>"
  by code_simp

theorem ping_received_bounds_witness:
  "(0::int) \<le> 4
   \<and> ping (fixed_world ''linux'' ''2024-05-01T10:00:00'' (Completed 0
        ''4 packets transmitted, 3 received, 25% packet loss, time 3004ms\<newline>rtt min/avg/max/mdev = 9.5/10.25/11.0/0.5 ms''))
        ''8.8.8.8'' 4 2
     = Inr \<lparr>PingResult.host = ''8.8.8.8'', packets_transmitted = 4, packets_received = 3,
            packet_loss = Fin 25, min_ms = Fin 9.5, avg_ms = Fin 10.25, max_ms = Fin 11,
            timestamp = ''2024-05-01T10:00:00''\<rparr>
   \<and> (3::int) \<le> 4 \<and> (3::int) = 4 - \<lfloor>of_int 4 * (25::real) / 100\<rfloor>"
proof -
  have p: "ping (fixed_world ''linux'' ''2024-05-01T10:00:00'' (Completed 0
        ''4 packets transmitted, 3 received, 25% packet loss, time 3004ms\<newline>rtt min/avg/max/mdev = 9.5/10.25/11.0/0.5 ms''))
        ''8.8.8.8'' 4 2
     = Inr \<lparr>PingResult.host = ''8.8.8.8'', packets_transmitted = 4, packets_received = 3,
            packet_loss = Fin 25, min_ms = Fin 9.5, avg_ms = Fin 10.25, max_ms = Fin 11,
            timestamp = ''2024-05-01T10:00:00''\<rparr>"
    by (simp add: ping_def fixed_world_def linux_sample_result)
  have z: "(0::int) \<le> 4" by simp
  from ping_received_bounds [OF z p] p show ?thesis
    by simp
qed

subsection \<open>Parsing twice\<close>

lemma ping_body_linux_clock:
  "ping_body_linux t1 output h count
     = (case ping_body_linux t2 output h count of
          Inl e \<Rightarrow> Inl e | Inr r \<Rightarrow> Inr (r\<lparr>timestamp := t1\<rparr>))"
  by (simp add: ping_body_linux_def bind_exn_def split: sum.split prod.split)

lemma ping_body_windows_clock:
  "ping_body_windows t1 output h count
     = (case ping_body_windows t2 output h count of
          Inl e \<Rightarrow> Inl e | Inr r \<Rightarrow> Inr (r\<lparr>timestamp := t1\<rparr>))"
  by (simp add: ping_body_windows_def bind_exn_def split: sum.split prod.split)

lemma parse_ping_linux_clock:
  "parse_ping_linux t1 output h count
     = (parse_ping_linux t2 output h count)\<lparr>timestamp := t1\<rparr>"
  unfolding parse_ping_linux_def
  by (subst ping_body_linux_clock [of t1 _ _ _ t2])
     (simp add: full_loss_def split: sum.split)

lemma parse_ping_windows_clock:
  "parse_ping_windows t1 output h count
     = (parse_ping_windows t2 output h count)\<lparr>timestamp := t1\<rparr>"
  unfolding parse_ping_windows_def
  by (subst ping_body_windows_clock [of t1 _ _ _ t2])
     (simp add: full_loss_def split: sum.split)

lemma parse_ping_timestamp:
  "timestamp (parse_ping_linux t output h count) = t"
  "timestamp (parse_ping_windows t output h count) = t"
  by (subst parse_ping_linux_clock [of t _ _ _ t], simp)
     (subst parse_ping_windows_clock [of t _ _ _ t], simp)

text \<open>
  The ping parsers read the clock: the same output parsed at two different clock readings
  gives two outcomes that differ.
\<close>

theorem parse_ping_clock_counterexample:
  "parse_ping_linux ''2024-05-01T10:00:00'' ''1 packets transmitted, 1 received, 0% packet loss''
       ''8.8.8.8'' 1
   \<noteq> parse_ping_linux ''2024-05-01T10:00:01'' ''1 packets transmitted, 1 received, 0% packet loss''
       ''8.8.8.8'' 1"
proof
  assume "parse_ping_linux ''2024-05-01T10:00:00''
            ''1 packets transmitted, 1 received, 0% packet loss'' ''8.8.8.8'' 1
          = parse_ping_linux ''2024-05-01T10:00:01''
            ''1 packets transmitted, 1 received, 0% packet loss'' ''8.8.8.8'' 1"
  then have "timestamp (parse_ping_linux ''2024-05-01T10:00:00''
            ''1 packets transmitted, 1 received, 0% packet loss'' ''8.8.8.8'' 1)
          = timestamp (parse_ping_linux ''2024-05-01T10:00:01''
            ''1 packets transmitted, 1 received, 0% packet loss'' ''8.8.8.8'' 1)"
    by simp
  then show False
    by (simp add: parse_ping_timestamp)
qed

text \<open>
  C9. Parsing the same output twice with the same ping parser gives outcomes that agree in
  every field but \<open>timestamp\<close>, which is the clock reading at each call. (The two
  traceroute parsers are functions of the output text alone.)
\<close>

theorem parse_ping_same_but_timestamp:
  "parse_ping_linux t1 output h count
     = (parse_ping_linux t2 output h count)\<lparr>timestamp := t1\<rparr>
   \<and> parse_ping_windows t1 output h count
     = (parse_ping_windows t2 output h count)\<lparr>timestamp := t1\<rparr>
   \<and> timestamp (parse_ping_linux t1 output h count) = t1
   \<and> timestamp (parse_ping_windows t1 output h count) = t1"
  using parse_ping_linux_clock [of t1 _ _ _ t2] parse_ping_windows_clock [of t1 _ _ _ t2]
  by (simp add: parse_ping_timestamp)

subsection \<open>The Windows traceroute parser\<close>

lemma hop_windows_error: "hop_windows line = Inl e \<Longrightarrow> e = ValueError \<or> e = IndexError"
  unfolding hop_windows_def bind_exn_def py_index_def
  by (auto split: sum.splits option.splits if_splits prod.splits simp: Let_def
      dest: py_int_error py_float_error)

lemma trace_loop_windows_all:
  assumes step: "\<And>i line h. startswith (strip line) (str_nat (i + 1)) \<Longrightarrow> hop_windows line = Inr h \<Longrightarrow> P h"
    and "list_all P hops"
  shows "\<exists>hs. trace_loop_windows i lines hops = Inr hs \<and> list_all P hs"
  using assms(2)
proof (induction lines arbitrary: i hops)
  case Nil
  then show ?case by simp
next
  case (Cons line lines)
  show ?case
  proof (cases "startswith (strip line) (str_nat (i + 1))")
    case False
    then show ?thesis using Cons.IH [OF Cons.prems] by simp
  next
    case True
    show ?thesis
    proof (cases "hop_windows line")
      case (Inl e)
      from hop_windows_error [OF Inl] show ?thesis
        using True Inl Cons.IH [OF Cons.prems] by auto
    next
      case (Inr h)
      from step [OF True Inr] Cons.prems have "list_all P (hops @ [h])" by simp
      from Cons.IH [OF this] show ?thesis
        using True Inr by simp
    qed
  qed
qed

lemma parse_traceroute_windows_total: "\<exists>hs. parse_traceroute_windows output = Inr hs"
  using trace_loop_windows_all [of "\<lambda>h. True" "[]" 0 "splitlines output"]
  by (auto simp: parse_traceroute_windows_def)

lemma ip_match_starts_with_digit:
  assumes "re_search ip_pattern line = Some (w, gs)"
  shows "w \<noteq> [] \<and> is_digit (hd w)"
proof -
  from re_search_Some [OF assms] obtain t where "match_alts ip_pattern t = Some (w, gs)"
    by blast
  then obtain gs' where
    "match_here [Many Digit 1, Lit ''.'', Many Digit 1, Lit ''.'', Many Digit 1, Lit ''.'',
                  Many Digit 1] t = Some (w, gs')"
    by (auto simp: ip_pattern_def split: option.splits)
  from match_Many_elim [OF this] obtain k w' where
    k: "1 \<le> k" "k \<le> length (takeWhile is_digit t)" "w = take k t @ w'"
    by (auto simp: in_cls_Digit)
  have a: "list_all is_digit (take k t)" using k(2) by (rule take_takeWhile_all)
  have n: "take k t \<noteq> []"
    using k(1,2) length_takeWhile_le [of is_digit t] by (cases t) auto
  then have "hd w = hd (take k t)" "w \<noteq> []" by (simp_all add: k(3))
  moreover have "is_digit (hd (take k t))" using a n by (cases "take k t") auto
  ultimately show ?thesis by simp
qed

lemma timeout_not_digit: "\<not> is_digit (CHR ''t'')"
  by (simp add: is_digit_def)

lemma hop_windows_timeout:
  assumes "hop_windows line = Inr h" "TraceHop.host h = ''timeout''"
  shows "rtt_ms h = None"
proof (cases "re_search ip_pattern line")
  case None
  with assms(1) show ?thesis
    unfolding hop_windows_def bind_exn_def
    by (auto split: sum.splits)
next
  case (Some m)
  obtain w gs where m: "m = (w, gs)" by (cases m)
  from ip_match_starts_with_digit [OF Some [unfolded m]] have "w \<noteq> ''timeout''"
    using timeout_not_digit by auto
  moreover from assms(1) have "TraceHop.host h = w"
    unfolding hop_windows_def bind_exn_def Some m
    by (auto split: sum.splits if_splits simp: Let_def)
  ultimately show ?thesis using assms(2) by simp
qed

subsection \<open>Hop numbers\<close>

lemma lead_digit_char: "0 < d \<Longrightarrow> d < 10 \<Longrightarrow> lead_digit (digit_char d)"
  by (simp add: lead_digit_def digit_char_def)

lemma str_nat_fuel_head:
  "0 < n \<Longrightarrow> n \<le> f \<Longrightarrow> str_nat_fuel f n \<noteq> [] \<and> lead_digit (hd (str_nat_fuel f n))"
proof (induction f arbitrary: n)
  case 0
  then show ?case by simp
next
  case (Suc f)
  show ?case
  proof (cases "n < 10")
    case True
    then show ?thesis using Suc.prems by (simp add: lead_digit_char)
  next
    case False
    then have "0 < n div 10" "n div 10 \<le> f" using Suc.prems by auto
    from Suc.IH [OF this] False show ?thesis by simp
  qed
qed

lemma str_nat_head: "0 < n \<Longrightarrow> str_nat n \<noteq> [] \<and> lead_digit (hd (str_nat n))"
  by (simp add: str_nat_def str_nat_fuel_head)

lemma lead_digit_facts:
  assumes "lead_digit c"
  shows "\<not> is_space c" "c \<noteq> CHR ''-''" "c \<noteq> CHR ''+''" "is_digit c" "1 \<le> digit_val c"
  using assms by (auto simp: lead_digit_def is_space_def is_digit_def digit_val_def)

lemma strip_Cons:
  assumes "\<not> is_space x"
  shows "strip (x # s) = x # rev (dropWhile is_space (rev s))"
  using assms by (simp add: strip_def dropWhile_append3)

lemma strip_dropWhile: "strip s = strip (dropWhile is_space s)"
  by (simp only: strip_def dropWhile_idem)

lemma strip_head:
  assumes "strip s = x # r"
  shows "\<exists>s'. dropWhile is_space s = x # s' \<and> \<not> is_space x"
proof (cases "dropWhile is_space s")
  case Nil
  have "strip s = []" unfolding strip_def Nil by simp
  with assms show ?thesis by simp
next
  case (Cons y s')
  then have ny: "\<not> is_space y"
    using hd_dropWhile [of is_space s] by auto
  have "strip s = strip (y # s')" using Cons strip_dropWhile [of s] by simp
  with assms strip_Cons [OF ny] have "x = y" by simp
  with Cons ny show ?thesis by simp
qed

lemma split_acc_cur:
  "cur \<noteq> [] \<Longrightarrow> \<exists>tok rest. split_acc cur s = (cur @ tok) # rest"
proof (induction s arbitrary: cur)
  case Nil
  then show ?case by simp
next
  case (Cons c s)
  show ?case
  proof (cases "is_space c")
    case True
    then show ?thesis using Cons.prems by simp
  next
    case False
    from Cons.IH [of "cur @ [c]"] obtain tok rest where
      "split_acc (cur @ [c]) s = ((cur @ [c]) @ tok) # rest" by auto
    then show ?thesis using False by simp
  qed
qed

lemma split_acc_skip: "split_acc [] s = split_acc [] (dropWhile is_space s)"
  by (induction s) auto

lemma split_first_token:
  assumes "strip line = x # r"
  shows "\<exists>tok rest. split line = (x # tok) # rest"
proof -
  from strip_head [OF assms] obtain s' where
    d: "dropWhile is_space line = x # s'" "\<not> is_space x" by blast
  have "split line = split_acc [] (x # s')"
    using split_acc_skip [of line] d(1) by (simp add: split_def)
  also have "\<dots> = split_acc [x] s'" using d(2) by simp
  finally show ?thesis
    using split_acc_cur [of "[x]" s'] by auto
qed

lemma dec_of_ge: "n \<le> dec_of n s"
proof (induction s arbitrary: n)
  case Nil
  show ?case by simp
next
  case (Cons c s)
  have "n \<le> 10 * n + digit_val c" by simp
  also have "\<dots> \<le> dec_of (10 * n + digit_val c) s" by (rule Cons.IH)
  finally show ?case by simp
qed

lemma py_int_lead_digit:
  assumes "lead_digit x" and "py_int (x # tok) = Inr n"
  shows "1 \<le> n"
proof -
  have s: "strip (x # tok) = x # rev (dropWhile is_space (rev tok))"
    using lead_digit_facts(1) [OF assms(1)] by (rule strip_Cons)
  have g: "split_sign (x # rev (dropWhile is_space (rev tok)))
             = (False, x # rev (dropWhile is_space (rev tok)))"
    using lead_digit_facts(2,3) [OF assms(1)] by (simp add: split_sign_def)
  from assms(2) have n: "n = int (digits_val (x # rev (dropWhile is_space (rev tok))))"
    by (simp add: py_int_def s g split: if_splits)
  have "digit_val x \<le> digits_val (x # rev (dropWhile is_space (rev tok)))"
    using lead_digit_facts(4) [OF assms(1)] dec_of_ge [of "digit_val x"]
    by (simp add: digits_val_def)
  with lead_digit_facts(5) [OF assms(1)] show ?thesis
    unfolding n by linarith
qed

lemma hop_windows_positive:
  assumes "startswith (strip line) (str_nat (i + 1))" and "hop_windows line = Inr h"
  shows "1 \<le> hop h"
proof -
  from str_nat_head [of "Suc i"] obtain x r where
    x: "str_nat (Suc i) = x # r" "lead_digit x"
    by (cases "str_nat (Suc i)") auto
  from assms(1) have "take (Suc (length r)) (strip line) = x # r"
    by (simp add: startswith_def x(1))
  then obtain r' where "strip line = x # r'"
    by (cases "strip line") auto
  from split_first_token [OF this] obtain tok rest where
    sp: "split line = (x # tok) # rest" by blast
  from assms(2) obtain n where "py_int (x # tok) = Inr n" "hop h = n"
    unfolding hop_windows_def bind_exn_def py_index_def sp
    by (auto split: sum.splits option.splits if_splits simp: Let_def)
  with py_int_lead_digit [OF x(2)] show ?thesis by simp
qed

lemma in_set_map_filter:
  "y \<in> set (List.map_filter f xs) \<longleftrightarrow> (\<exists>x\<in>set xs. f x = Some y)"
  by (induction xs) (auto split: option.splits)

lemma unix_hop_spec_hop:
  assumes "unix_hop_spec line = Some h"
  shows "\<exists>t ts. split line = t # ts \<and> py_int t = Inr (hop h)"
  using assms unfolding unix_hop_spec_def
  by (auto split: list.splits sum.splits if_splits)

lemma unix_hop_spec_timeout:
  assumes "unix_hop_spec line = Some h" "TraceHop.host h = ''timeout''" "rtt_ms h \<noteq> None"
  shows "take 1 (drop 1 (split line)) = [''timeout'']"
  using assms unfolding unix_hop_spec_def
  by (auto split: list.splits sum.splits if_splits)

lemma windows_sample_hops:
  "parse_traceroute_windows ''1    <1 ms    <1 ms  192.168.1.1\<newline>2     *        *     Request timed out.\<newline>Trace complete.''
   = Inr [\<lparr>hop = 1, TraceHop.host = ''192.168.1.1'', rtt_ms = Some (Fin 1)\<rparr>,
          \<lparr>hop = 2, TraceHop.host = ''timeout'', rtt_ms = None\<rparr>]"
  by code_simp

lemma linux_sample_hops:
  "parse_traceroute_linux ''traceroute to 192.0.2.1\<newline> 1  10.0.0.1  0.5 ms\<newline> 2  * * *''
   = Inr [\<lparr>hop = 1, TraceHop.host = ''10.0.0.1'', rtt_ms = Some (Fin 0.5)\<rparr>,
          \<lparr>hop = 2, TraceHop.host = ''timeout'', rtt_ms = None\<rparr>]"
  by code_simp

lemma linux_sample_no_timeout_token:
  "list_all (\<lambda>line. take 1 (drop 1 (split line)) \<noteq> [''timeout''])
     (drop 1 (splitlines ''traceroute to 192.0.2.1\<newline> 1  10.0.0.1  0.5 ms\<newline> 2  * * *''))"
  by code_simp

text \<open>
  The Unix-like parser takes the hop number from \<open>int()\<close> of the first token, whatever it
  is: a line \<open>0 *\<close> gives a hop numbered 0.
\<close>

theorem linux_hop_zero_counterexample:
  "parse_traceroute_linux ''traceroute to 192.0.2.1\<newline> 0  *''
     = Inr [\<lparr>hop = 0, TraceHop.host = ''timeout'', rtt_ms = None\<rparr>]
   \<and> \<not> 1 \<le> hop \<lparr>hop = 0, TraceHop.host = ''timeout'', rtt_ms = None\<rparr>"
  by code_simp

text \<open>
  C8. Every hop produced by the Windows traceroute parser, for every output, has a hop
  number of at least 1 (its line starts with the decimal numeral of a positive index,
  so its first token starts with a digit from 1 to 9). Every hop produced by the
  Unix-like parser has as hop number the value of \<open>int()\<close> on the first token of one of
  the lines after the first.
\<close>

theorem traceroute_hop_numbers:
  "(\<exists>hs. parse_traceroute_windows output = Inr hs \<and> (\<forall>h\<in>set hs. 1 \<le> hop h))
   \<and> (\<exists>hs. parse_traceroute_linux output = Inr hs
          \<and> (\<forall>h\<in>set hs. \<exists>line\<in>set (drop 1 (splitlines output)).
                 \<exists>t ts. split line = t # ts \<and> py_int t = Inr (hop h)))"
proof
  from trace_loop_windows_all [of "\<lambda>h. 1 \<le> hop h" "[]" 0 "splitlines output"]
  show "\<exists>hs. parse_traceroute_windows output = Inr hs \<and> (\<forall>h\<in>set hs. 1 \<le> hop h)"
    using hop_windows_positive by (auto simp: parse_traceroute_windows_def list_all_iff)
next
  have "\<forall>h\<in>set (List.map_filter unix_hop_spec (drop 1 (splitlines output))).
          \<exists>line\<in>set (drop 1 (splitlines output)).
            \<exists>t ts. split line = t # ts \<and> py_int t = Inr (hop h)"
  proof (intro ballI)
    fix h
    assume "h \<in> set (List.map_filter unix_hop_spec (drop 1 (splitlines output)))"
    then obtain line where l: "line \<in> set (drop 1 (splitlines output))"
      "unix_hop_spec line = Some h"
      by (auto simp: in_set_map_filter)
    from unix_hop_spec_hop [OF l(2)] l(1)
    show "\<exists>line\<in>set (drop 1 (splitlines output)).
            \<exists>t ts. split line = t # ts \<and> py_int t = Inr (hop h)"
      by blast
  qed
  then show "\<exists>hs. parse_traceroute_linux output = Inr hs
          \<and> (\<forall>h\<in>set hs. \<exists>line\<in>set (drop 1 (splitlines output)).
                 \<exists>t ts. split line = t # ts \<and> py_int t = Inr (hop h))"
    by (simp add: parse_traceroute_linux_def trace_loop_linux_spec)
qed

theorem traceroute_hop_numbers_witness:
  "parse_traceroute_windows ''1    <1 ms    <1 ms  192.168.1.1\<newline>2     *        *     Request timed out.\<newline>Trace complete.''
   = Inr [\<lparr>hop = 1, TraceHop.host = ''192.168.1.1'', rtt_ms = Some (Fin 1)\<rparr>,
          \<lparr>hop = 2, TraceHop.host = ''timeout'', rtt_ms = None\<rparr>]
   \<and> 1 \<le> hop \<lparr>hop = 1, TraceHop.host = ''192.168.1.1'', rtt_ms = Some (Fin 1)\<rparr>
   \<and> 1 \<le> hop \<lparr>hop = 2, TraceHop.host = ''timeout'', rtt_ms = None\<rparr>"
  using traceroute_hop_numbers
    [of "''1    <1 ms    <1 ms  192.168.1.1\<newline>2     *        *     Request timed out.\<newline>Trace complete.''"]
  by (simp add: windows_sample_hops)

subsection \<open>Hops without a reply\<close>

text \<open>
  The Unix-like parser copies the second token as the host: a line whose second token is
  the text \<open>timeout\<close> gives a hop with host \<open>timeout\<close> and a round-trip time.
\<close>

theorem linux_timeout_token_counterexample:
  "parse_traceroute_linux ''traceroute to 192.0.2.1\<newline> 3  timeout  5.0 ms''
     = Inr [\<lparr>hop = 3, TraceHop.host = ''timeout'', rtt_ms = Some (Fin 5)\<rparr>]
   \<and> rtt_ms \<lparr>hop = 3, TraceHop.host = ''timeout'', rtt_ms = Some (Fin 5)\<rparr> \<noteq> None"
  by code_simp

text \<open>
  C10. In every hop list returned by the Windows traceroute parser, a hop whose host is
  \<open>timeout\<close> has no round-trip time. The same holds for the Unix-like parser on every
  output in which no line after the first has the text \<open>timeout\<close> as its second token.
\<close>

theorem timeout_hops_without_rtt:
  "(\<exists>hs. parse_traceroute_windows output = Inr hs
       \<and> (\<forall>h\<in>set hs. TraceHop.host h = ''timeout'' \<longrightarrow> rtt_ms h = None))
   \<and> ((\<forall>line\<in>set (drop 1 (splitlines output)). take 1 (drop 1 (split line)) \<noteq> [''timeout''])
        \<longrightarrow> (\<exists>hs. parse_traceroute_linux output = Inr hs
               \<and> (\<forall>h\<in>set hs. TraceHop.host h = ''timeout'' \<longrightarrow> rtt_ms h = None)))"
proof
  from trace_loop_windows_all
    [of "\<lambda>h. TraceHop.host h = ''timeout'' \<longrightarrow> rtt_ms h = None" "[]" 0 "splitlines output"]
  show "\<exists>hs. parse_traceroute_windows output = Inr hs
       \<and> (\<forall>h\<in>set hs. TraceHop.host h = ''timeout'' \<longrightarrow> rtt_ms h = None)"
    using hop_windows_timeout by (auto simp: parse_traceroute_windows_def list_all_iff)
next
  show "(\<forall>line\<in>set (drop 1 (splitlines output)). take 1 (drop 1 (split line)) \<noteq> [''timeout''])
        \<longrightarrow> (\<exists>hs. parse_traceroute_linux output = Inr hs
               \<and> (\<forall>h\<in>set hs. TraceHop.host h = ''timeout'' \<longrightarrow> rtt_ms h = None))"
  proof
    assume a: "\<forall>line\<in>set (drop 1 (splitlines output)). take 1 (drop 1 (split line)) \<noteq> [''timeout'']"
    have "\<forall>h\<in>set (List.map_filter unix_hop_spec (drop 1 (splitlines output))).
            TraceHop.host h = ''timeout'' \<longrightarrow> rtt_ms h = None"
    proof (intro ballI impI)
      fix h
      assume h: "h \<in> set (List.map_filter unix_hop_spec (drop 1 (splitlines output)))"
        and t: "TraceHop.host h = ''timeout''"
      from h obtain line where l: "line \<in> set (drop 1 (splitlines output))"
        "unix_hop_spec line = Some h"
        by (auto simp: in_set_map_filter)
      show "rtt_ms h = None"
      proof (rule ccontr)
        assume "rtt_ms h \<noteq> None"
        from unix_hop_spec_timeout [OF l(2) t this] a l(1) show False by blast
      qed
    qed
    then show "\<exists>hs. parse_traceroute_linux output = Inr hs
               \<and> (\<forall>h\<in>set hs. TraceHop.host h = ''timeout'' \<longrightarrow> rtt_ms h = None)"
      by (simp add: parse_traceroute_linux_def trace_loop_linux_spec)
  qed
qed

theorem timeout_hops_without_rtt_witness:
  "parse_traceroute_windows ''1    <1 ms    <1 ms  192.168.1.1\<newline>2     *        *     Request timed out.\<newline>Trace complete.''
   = Inr [\<lparr>hop = 1, TraceHop.host = ''192.168.1.1'', rtt_ms = Some (Fin 1)\<rparr>,
          \<lparr>hop = 2, TraceHop.host = ''timeout'', rtt_ms = None\<rparr>]
   \<and> parse_traceroute_linux ''traceroute to 192.0.2.1\<newline> 1  10.0.0.1  0.5 ms\<newline> 2  * * *''
   = Inr [\<lparr>hop = 1, TraceHop.host = ''10.0.0.1'', rtt_ms = Some (Fin 0.5)\<rparr>,
          \<lparr>hop = 2, TraceHop.host = ''timeout'', rtt_ms = None\<rparr>]
   \<and> TraceHop.host \<lparr>hop = 2, TraceHop.host = ''timeout'', rtt_ms = None\<rparr> = ''timeout''
   \<and> rtt_ms \<lparr>hop = 2, TraceHop.host = ''timeout'', rtt_ms = None\<rparr> = None"
proof -
  have a: "\<forall>line\<in>set (drop 1 (splitlines ''traceroute to 192.0.2.1\<newline> 1  10.0.0.1  0.5 ms\<newline> 2  * * *'')).
            take 1 (drop 1 (split line)) \<noteq> [''timeout'']"
    using linux_sample_no_timeout_token by (simp only: list_all_iff)
  from timeout_hops_without_rtt
    [of "''traceroute to 192.0.2.1\<newline> 1  10.0.0.1  0.5 ms\<newline> 2  * * *''"] a
  have "\<exists>hs. parse_traceroute_linux ''traceroute to 192.0.2.1\<newline> 1  10.0.0.1  0.5 ms\<newline> 2  * * *'' = Inr hs
          \<and> (\<forall>h\<in>set hs. TraceHop.host h = ''timeout'' \<longrightarrow> rtt_ms h = None)"
    by blast
  then show ?thesis
    by (simp add: linux_sample_hops windows_sample_hops)
qed

subsection \<open>Exceptions of the probes\<close>

text \<open>
  When the command cannot be started, \<open>subprocess.run\<close> raises an \<open>OSError\<close>, which neither
  \<open>ping\<close> nor \<open>traceroute\<close> catches; and \<open>traceroute\<close> parses the output of a command that
  ended with a return code other than 0 like any other output.
\<close>

theorem probe_spawn_error_counterexample:
  "ping (fixed_world ''linux'' ''2024-05-01T10:00:00'' (Raised OSError)) ''8.8.8.8'' 4 2
     = Inl OSError
   \<and> traceroute (fixed_world ''linux'' ''2024-05-01T10:00:00'' (Raised OSError)) ''8.8.8.8'' 30
     = Inl OSError
   \<and> traceroute (fixed_world ''linux'' ''2024-05-01T10:00:00''
         (Completed 1 ''traceroute to 8.8.8.8\<newline> 1  10.0.0.1  0.5 ms'')) ''8.8.8.8'' 30
     = Inr [\<lparr>hop = 1, TraceHop.host = ''10.0.0.1'', rtt_ms = Some (Fin 0.5)\<rparr>]"
proof -
  have "parse_traceroute_linux ''traceroute to 8.8.8.8\<newline> 1  10.0.0.1  0.5 ms''
     = Inr [\<lparr>hop = 1, TraceHop.host = ''10.0.0.1'', rtt_ms = Some (Fin 0.5)\<rparr>]"
    by code_simp
  then show ?thesis
    by (simp add: ping_def traceroute_def fixed_world_def)
qed

text \<open>
  C1. \<open>ping\<close> and \<open>traceroute\<close> raise exactly the exceptions that \<open>subprocess.run\<close> raises
  other than \<open>TimeoutExpired\<close> (a command that is not found, a spawn error of the operating
  system). A return code other than 0 and a timeout make \<open>ping\<close> return the full-loss
  outcome; a timeout makes \<open>traceroute\<close> return the empty list; when its command completes,
  \<open>traceroute\<close> returns the hops parsed from the output whatever the return code is.
\<close>

theorem probes_raise_what_run_raises:
  "(ping w h count timeout = Inl e
      \<longleftrightarrow> run w (ping_cmd (system w) h count timeout) = Raised e)
   \<and> (traceroute w h max_hops = Inl e
      \<longleftrightarrow> run w (traceroute_cmd w h max_hops) = Raised e)
   \<and> (\<forall>rc out. run w (ping_cmd (system w) h count timeout) = Completed rc out \<and> rc \<noteq> 0
        \<longrightarrow> ping w h count timeout = Inr (full_loss (now w) h count))
   \<and> (run w (ping_cmd (system w) h count timeout) = TimeoutExpired
        \<longrightarrow> ping w h count timeout = Inr (full_loss (now w) h count))
   \<and> (run w (traceroute_cmd w h max_hops) = TimeoutExpired
        \<longrightarrow> traceroute w h max_hops = Inr [])
   \<and> (\<forall>rc out. run w (traceroute_cmd w h max_hops) = Completed rc out
        \<longrightarrow> traceroute w h max_hops
            = (if system w = ''windows'' then parse_traceroute_windows out
               else parse_traceroute_linux out))"
proof (intro conjI)
  show "ping w h count timeout = Inl e
      \<longleftrightarrow> run w (ping_cmd (system w) h count timeout) = Raised e"
    by (cases "run w (ping_cmd (system w) h count timeout)") (auto simp: ping_def)
  show "traceroute w h max_hops = Inl e
      \<longleftrightarrow> run w (traceroute_cmd w h max_hops) = Raised e"
  proof (cases "run w (traceroute_cmd w h max_hops)")
    case (Completed rc out)
    obtain hs where "parse_traceroute_windows out = Inr hs"
      using parse_traceroute_windows_total by blast
    then show ?thesis
      by (simp add: traceroute_def Completed parse_traceroute_linux_def trace_loop_linux_spec)
  next
    case TimeoutExpired
    then show ?thesis by (simp add: traceroute_def)
  next
    case (Raised e')
    then show ?thesis by (auto simp: traceroute_def)
  qed
qed (simp_all add: ping_def traceroute_def)

theorem probes_raise_what_run_raises_witness:
  "ping (fixed_world ''linux'' ''2024-05-01T10:00:00'' (Raised OSError)) ''8.8.8.8'' 4 2
     = Inl OSError
   \<and> ping (fixed_world ''linux'' ''2024-05-01T10:00:00'' (Completed 2 [])) ''8.8.8.8'' 4 2
     = Inr (full_loss ''2024-05-01T10:00:00'' ''8.8.8.8'' 4)
   \<and> ping (fixed_world ''linux'' ''2024-05-01T10:00:00'' TimeoutExpired) ''8.8.8.8'' 4 2
     = Inr (full_loss ''2024-05-01T10:00:00'' ''8.8.8.8'' 4)
   \<and> traceroute (fixed_world ''windows'' ''2024-05-01T10:00:00'' TimeoutExpired) ''8.8.8.8'' 30
     = Inr []"
proof -
  have r: "run (fixed_world s t p) cmd = p" "now (fixed_world s t p) = t" for s t p cmd
    by (simp_all add: fixed_world_def)
  from probes_raise_what_run_raises
    [of "fixed_world ''linux'' ''2024-05-01T10:00:00'' (Raised OSError)" "''8.8.8.8''" 4 2 OSError]
  have 1: "ping (fixed_world ''linux'' ''2024-05-01T10:00:00'' (Raised OSError)) ''8.8.8.8'' 4 2
     = Inl OSError"
    by (simp add: r)
  from probes_raise_what_run_raises
    [of "fixed_world ''linux'' ''2024-05-01T10:00:00'' (Completed 2 [])" "''8.8.8.8''" 4 2]
  have 2: "ping (fixed_world ''linux'' ''2024-05-01T10:00:00'' (Completed 2 [])) ''8.8.8.8'' 4 2
     = Inr (full_loss ''2024-05-01T10:00:00'' ''8.8.8.8'' 4)"
    by (simp add: r)
  from probes_raise_what_run_raises
    [of "fixed_world ''linux'' ''2024-05-01T10:00:00'' TimeoutExpired" "''8.8.8.8''" 4 2]
  have 3: "ping (fixed_world ''linux'' ''2024-05-01T10:00:00'' TimeoutExpired) ''8.8.8.8'' 4 2
     = Inr (full_loss ''2024-05-01T10:00:00'' ''8.8.8.8'' 4)"
    by (simp add: r)
  from probes_raise_what_run_raises
    [where w = "fixed_world ''windows'' ''2024-05-01T10:00:00'' TimeoutExpired"
       and h = "''8.8.8.8''" and max_hops = 30]
  have 4: "traceroute (fixed_world ''windows'' ''2024-05-01T10:00:00'' TimeoutExpired)
             ''8.8.8.8'' 30 = Inr []"
    by (simp add: r)
  from 1 2 3 4 show ?thesis by simp
qed

subsection \<open>Host validation\<close>















end
